theory Spec2Isabelle
  imports Main "HOL-Library.AList" "HOL-Library.Sublist"
begin

section \<open>JavaScript values, objects and arrays as the router uses them\<close>

text \<open>
  The router of \<^verbatim>\<open>src/router.ts\<close> works on strings, on plain objects used as
  dictionaries (\<^verbatim>\<open>Record<string, number>\<close>, \<^verbatim>\<open>Record<string, string>\<close>) and on
  arrays of strings. Reading an array out of range yields \<^verbatim>\<open>undefined\<close>, so the values
  that end up in a params record are strings or \<^verbatim>\<open>undefined\<close>.
\<close>

datatype jsval = Undefined | Str string

text \<open>
  A plain object is an association list with distinct keys, a new key being appended.
  The order of the keys is the order of insertion; \<^verbatim>\<open>Object.keys\<close> lists integer-like
  keys first, which changes no lookup and no result of the loops below, since each of
  them writes every key once with a value that depends on the key alone.
\<close>

type_synonym 'v obj = "(string \<times> 'v) list"

text \<open>
  The assignment \<^verbatim>\<open>o[key] = v\<close> on an object created by the literal \<^verbatim>\<open>{}\<close>, for a
  primitive \<^verbatim>\<open>v\<close> (a number, a string, \<^verbatim>\<open>undefined\<close>). The key \<^verbatim>\<open>__proto__\<close> is the
  accessor inherited from \<^verbatim>\<open>Object.prototype\<close>, whose setter ignores a value that is
  neither an object nor \<^verbatim>\<open>null\<close>: the assignment creates no own property.
\<close>

definition obj_set :: "'v obj \<Rightarrow> string \<Rightarrow> 'v \<Rightarrow> 'v obj" where
  "obj_set ob key v = (if key = ''__proto__'' then ob else AList.update key v ob)"

definition obj_keys :: "'v obj \<Rightarrow> string list" where
  "obj_keys ob = map fst ob"

text \<open>\<^verbatim>\<open>arr[i]\<close> on an array of strings: \<^verbatim>\<open>undefined\<close> out of range.\<close>

definition idx :: "string list \<Rightarrow> nat \<Rightarrow> jsval" where
  "idx arr i = (if i < length arr then Str (arr ! i) else Undefined)"

text \<open>
  \<^verbatim>\<open>arr[obj[key]]\<close>, where \<^verbatim>\<open>obj[key]\<close> is \<^verbatim>\<open>undefined\<close> for an absent key and
  \<^verbatim>\<open>arr[undefined]\<close> is \<^verbatim>\<open>undefined\<close>.
\<close>

definition idx_of :: "string list \<Rightarrow> nat obj \<Rightarrow> string \<Rightarrow> jsval" where
  "idx_of arr ob key = (case map_of ob key of None \<Rightarrow> Undefined | Some i \<Rightarrow> idx arr i)"

text \<open>
  An array that may have holes: \<^verbatim>\<open>p.path[i] = part\<close> writes at an index that may lie
  beyond the end, in which case the array grows and the skipped indices are holes
  (\<open>None\<close>).
\<close>

type_synonym 'a sparse = "'a option list"

definition array_set :: "'a sparse \<Rightarrow> nat \<Rightarrow> 'a \<Rightarrow> 'a sparse" where
  "array_set arr i v =
     (if i < length arr then arr[i := Some v]
      else arr @ replicate (i - length arr) None @ [Some v])"

text \<open>\<^verbatim>\<open>Array.prototype.every\<close> calls its predicate on the elements present, not on holes.\<close>

fun every_from :: "nat \<Rightarrow> ('a \<Rightarrow> nat \<Rightarrow> bool) \<Rightarrow> 'a sparse \<Rightarrow> bool" where
  "every_from i f [] = True"
| "every_from i f (None # arr) = every_from (Suc i) f arr"
| "every_from i f (Some x # arr) = (f x i \<and> every_from (Suc i) f arr)"

definition every :: "('a \<Rightarrow> nat \<Rightarrow> bool) \<Rightarrow> 'a sparse \<Rightarrow> bool" where
  "every f arr = every_from 0 f arr"

text \<open>\<^verbatim>\<open>str.split(sep)\<close> for a one-character separator: never the empty array.\<close>

fun split :: "char \<Rightarrow> string \<Rightarrow> string list" where
  "split sep [] = [[]]"
| "split sep (c # cs) =
     (if c = sep then [] # split sep cs
      else (case split sep cs of [] \<Rightarrow> [[c]] | p # ps \<Rightarrow> (c # p) # ps))"

text \<open>\<^verbatim>\<open>arr.join(sep)\<close> on an array of strings.\<close>

fun join :: "string \<Rightarrow> string list \<Rightarrow> string" where
  "join sep [] = []"
| "join sep [x] = x"
| "join sep (x # y # ys) = x @ sep @ join sep (y # ys)"

text \<open>\<^verbatim>\<open>fst(arr)\<close> is \<^verbatim>\<open>arr[0]\<close>: on a string its first character, \<^verbatim>\<open>undefined\<close> if empty.\<close>

definition fst_str :: "string \<Rightarrow> string option" where
  "fst_str arr = (case arr of [] \<Rightarrow> None | c # _ \<Rightarrow> Some [c])"

text \<open>
  A behavior is a value that varies over time; \<^verbatim>\<open>Behavior.of\<close> is the constant one and
  \<^verbatim>\<open>map\<close> applies a function at every time.
\<close>

type_synonym 'a Behavior = "nat \<Rightarrow> 'a"

definition Behavior_of :: "'a \<Rightarrow> 'a Behavior" where
  "Behavior_of x = (\<lambda>t. x)"

definition Behavior_map :: "('a \<Rightarrow> 'b) \<Rightarrow> 'a Behavior \<Rightarrow> 'b Behavior" where
  "Behavior_map f b = (\<lambda>t. f (b t))"

section \<open>Routers\<close>

record RouterConfig =
  useHash :: bool

record Router =
  prefixPath :: string
  path :: "string Behavior"
  config :: RouterConfig

text \<open>
  What the module reads from its host when it is loaded: the two capability flags and
  the two location behaviors.
\<close>

record Host =
  supportHistory :: bool
  supportHash :: bool
  locationHashB :: "string Behavior"
  locationB :: "string Behavior"

text \<open>
  \<^verbatim>\<open>Error msg\<close> is \<^verbatim>\<open>throw new Error(msg)\<close>; \<^verbatim>\<open>TypeError\<close> is what reading a property of
  \<^verbatim>\<open>undefined\<close> throws.
\<close>

datatype error = Error string | TypeError

definition createRouter :: "Host \<Rightarrow> RouterConfig \<Rightarrow> error + Router" where
  "createRouter host cfg =
     (if useHash cfg \<and> \<not> supportHash host then Inl (Error ''No support for hash-routing.'')
      else if \<not> supportHistory host then Inl (Error ''No support for history API.'')
      else Inr \<lparr>prefixPath = [],
                path = (if useHash cfg then locationHashB host else locationB host),
                config = cfg\<rparr>)"

section \<open>Reading parameters\<close>

function readParams_record :: "nat \<Rightarrow> string list \<Rightarrow> nat obj \<Rightarrow> nat obj" where
  "readParams_record i patternParts paramRecord =
     (if i < length patternParts then
        (let part = patternParts ! i in
         readParams_record (i + 1) patternParts
           (if fst_str part = Some '':'' then obj_set paramRecord (drop 1 part) i
            else paramRecord))
      else paramRecord)"
  by pat_completeness auto
termination
  by (relation "measure (\<lambda>(i, patternParts, paramRecord). length patternParts - i)") auto

declare readParams_record.simps [simp del]

text \<open>
  The loop \<^verbatim>\<open>for (const key of Object.keys(rec)) { params[key] = parts[rec[key]]; }\<close>,
  which \<^verbatim>\<open>readParams\<close> and \<^verbatim>\<open>routePath\<close> share.
\<close>

fun bind_params :: "string list \<Rightarrow> nat obj \<Rightarrow> string list \<Rightarrow> jsval obj \<Rightarrow> jsval obj" where
  "bind_params parts paramRecord [] params = params"
| "bind_params parts paramRecord (key # keys) params =
     bind_params parts paramRecord keys (obj_set params key (idx_of parts paramRecord key))"

definition readParams :: "string \<Rightarrow> string \<Rightarrow> jsval obj" where
  "readParams pattern pth =
     (let patternParts = split CHR ''/'' pattern;
          paramRecord = readParams_record 0 patternParts [];
          pathParts = split CHR ''/'' pth
      in bind_params pathParts paramRecord (obj_keys paramRecord) [])"

definition parsePathParams :: "string \<Rightarrow> string Behavior \<Rightarrow> jsval obj Behavior" where
  "parsePathParams pattern locationBehavior =
     Behavior_map (\<lambda>location. readParams pattern location) locationBehavior"

section \<open>Compiling a pattern\<close>

type_synonym 'a PathHandler = "Router \<Rightarrow> jsval obj \<Rightarrow> 'a"

record 'a ParsedPathPattern =
  pattern_path :: "string sparse"
  pattern_params :: "nat obj"
  pattern_length :: nat
  pattern_handler :: "'a PathHandler"

function parsePathPattern_loop ::
  "nat \<Rightarrow> string list \<Rightarrow> 'a ParsedPathPattern \<Rightarrow> 'a ParsedPathPattern" where
  "parsePathPattern_loop i patternParts p =
     (if i < length patternParts then
        (let part = patternParts ! i in
         parsePathPattern_loop (i + 1) patternParts
           (if fst_str part = Some '':''
            then p\<lparr>pattern_params := obj_set (pattern_params p) (drop 1 part) i\<rparr>
            else p\<lparr>pattern_path := array_set (pattern_path p) i part\<rparr>))
      else p)"
  by pat_completeness auto
termination
  by (relation "measure (\<lambda>(i, patternParts, p). length patternParts - i)") auto

declare parsePathPattern_loop.simps [simp del]

definition parsePathPattern :: "string \<Rightarrow> 'a PathHandler \<Rightarrow> 'a ParsedPathPattern" where
  "parsePathPattern pattern handler =
     (let patternParts = split CHR ''/'' pattern;
          p = \<lparr>pattern_path = [], pattern_params = [],
               pattern_length = length patternParts, pattern_handler = handler\<rparr>
      in if pattern = ''*'' then p else parsePathPattern_loop 0 patternParts p)"

section \<open>Routing a location\<close>

text \<open>
  A route table is given by its entries in the order in which \<^verbatim>\<open>Object.keys\<close> lists
  them; the keys of an object are distinct.
\<close>

type_synonym 'a Routes = "(string \<times> 'a PathHandler) list"

definition parsedRoutes :: "'a Routes \<Rightarrow> 'a ParsedPathPattern list" where
  "parsedRoutes routes = map (\<lambda>(pth, handler). parsePathPattern pth handler) routes"

text \<open>The predicate of \<^verbatim>\<open>parsedRoutes.find\<close>.\<close>

definition compatible :: "string list \<Rightarrow> 'a ParsedPathPattern \<Rightarrow> bool" where
  "compatible locationParts p =
     every (\<lambda>part index. Str part = idx locationParts index) (pattern_path p)"

text \<open>
  The body of the function that \<^verbatim>\<open>routePath\<close> maps over the location, up to the call
  of the handler: the handler found, the router and the params it is called with.
  When \<^verbatim>\<open>find\<close> returns \<^verbatim>\<open>undefined\<close>, reading \<^verbatim>\<open>match.length\<close> throws.
\<close>

definition dispatch ::
  "'a ParsedPathPattern list \<Rightarrow> Router \<Rightarrow> string
     \<Rightarrow> error + ('a PathHandler \<times> Router \<times> jsval obj)" where
  "dispatch parsed router location =
     (let locationParts = split CHR ''/'' location in
      case List.find (compatible locationParts) parsed of
        None \<Rightarrow> Inl TypeError
      | Some match \<Rightarrow>
          (let rest = ''/'' @ join ''/'' (drop (pattern_length match) locationParts);
               matchedPath = join ''/'' (take (pattern_length match) locationParts);
               newRouter = \<lparr>prefixPath = prefixPath router @ matchedPath,
                            path = Behavior_of rest,
                            config = config router\<rparr>;
               params = bind_params locationParts (pattern_params match)
                          (obj_keys (pattern_params match)) []
           in Inr (pattern_handler match, newRouter, params)))"

text \<open>
  The function that \<^verbatim>\<open>routePath\<close> maps over the location: the result of the handler
  found, or what \<open>dispatch\<close> throws.
\<close>

definition routeLocation :: "'a Routes \<Rightarrow> Router \<Rightarrow> string \<Rightarrow> error + 'a" where
  "routeLocation routes router location =
     (case dispatch (parsedRoutes routes) router location of
        Inl e \<Rightarrow> Inl e
      | Inr (handler, newRouter, params) \<Rightarrow> Inr (handler newRouter params))"

text \<open>
  \<^verbatim>\<open>b.map(f)\<close> for a function \<open>f\<close> that may throw. Time 0 is the call of \<^verbatim>\<open>map\<close>; the
  later values of \<open>b\<close> are the ones that its source is given, one after the other. The
  function is applied to the value at time 0 in the call, so a throw there leaves
  through the call and no behavior is returned. It is applied again to every later
  value; a throw there leaves through the push of that value, it is not a value of the
  behavior, which keeps the value it had (\<open>held\<close>).
\<close>

fun held :: "('a \<Rightarrow> error + 'b) \<Rightarrow> 'a Behavior \<Rightarrow> 'b \<Rightarrow> 'b Behavior" where
  "held f b x0 0 = x0"
| "held f b x0 (Suc t) = (case f (b (Suc t)) of Inl e \<Rightarrow> held f b x0 t | Inr x \<Rightarrow> x)"

definition Behavior_map_throwing ::
  "('a \<Rightarrow> error + 'b) \<Rightarrow> 'a Behavior \<Rightarrow> error + 'b Behavior" where
  "Behavior_map_throwing f b =
     (case f (b 0) of Inl e \<Rightarrow> Inl e | Inr x0 \<Rightarrow> Inr (held f b x0))"

text \<open>
  \<^verbatim>\<open>routePath(routes, router)\<close> throws, when the location that the router has at the
  call matches no pattern, or returns the behavior of the handlers' results.
\<close>

definition routePath :: "'a Routes \<Rightarrow> Router \<Rightarrow> error + 'a Behavior" where
  "routePath routes router = Behavior_map_throwing (routeLocation routes router) (path router)"

section \<open>Notions used to state the properties\<close>

text \<open>The element present at an index of an array with holes, if any.\<close>

definition cell :: "'a sparse \<Rightarrow> nat \<Rightarrow> 'a option" where
  "cell arr j = (if j < length arr then arr ! j else None)"

text \<open>
  The literal constraints of a pattern, read off the pattern string: at every index
  where the pattern has a segment that does not start with a colon, the location has
  that very segment; the pattern \<^verbatim>\<open>*\<close> has no constraint.
\<close>

definition literals_hold :: "string \<Rightarrow> string list \<Rightarrow> bool" where
  "literals_hold pattern locationParts =
     (pattern = ''*'' \<or>
      (let patternParts = split CHR ''/'' pattern in
       \<forall>i \<in> {0..<length patternParts}.
          fst_str (patternParts ! i) = Some '':'' \<or> idx locationParts i = Str (patternParts ! i)))"

text \<open>
  A chain of nested matches: the handler of each level routes the next table on the
  router it was handed, read at time \<open>t\<close>. \<open>descend\<close> is the router that the last
  level hands down.
\<close>

fun descend :: "'a Routes list \<Rightarrow> Router \<Rightarrow> nat \<Rightarrow> error + Router" where
  "descend [] router t = Inr router"
| "descend (routes # tables) router t =
     (case dispatch (parsedRoutes routes) router (path router t) of
        Inl e \<Rightarrow> Inl e
      | Inr (handler, newRouter, params) \<Rightarrow> descend tables newRouter t)"

text \<open>
  The path matched at each level of such a chain, computed from the location alone:
  the segments that the first compatible pattern covers, the next level seeing what is
  left.
\<close>

fun matchedPaths :: "'a Routes list \<Rightarrow> string \<Rightarrow> string list" where
  "matchedPaths [] location = []"
| "matchedPaths (routes # tables) location =
     (let locationParts = split CHR ''/'' location in
      case List.find (compatible locationParts) (parsedRoutes routes) of
        None \<Rightarrow> []
      | Some match \<Rightarrow>
          join ''/'' (take (pattern_length match) locationParts)
            # matchedPaths tables (''/'' @ join ''/'' (drop (pattern_length match) locationParts)))"

text \<open>A handler and a top-level router for the concrete scenarios.\<close>

definition unit_handler :: "unit PathHandler" where
  "unit_handler subrouter params = ()"

definition top_router :: "string \<Rightarrow> Router" where
  "top_router location =
     \<lparr>prefixPath = [], path = Behavior_of location, config = \<lparr>useHash = False\<rparr>\<rparr>"

section \<open>Arrays, objects and the two loops\<close>

lemma split_not_Nil: "split sep s \<noteq> []"
  by (induction s) (auto split: list.splits)

lemma length_split_pos: "0 < length (split sep s)"
  using split_not_Nil [of sep s] by simp

lemma fst_str_colon: "fst_str part = Some '':'' \<longleftrightarrow> (\<exists>name. part = CHR '':'' # name)"
  by (cases part) (auto simp: fst_str_def)

lemma cell_Nil: "cell [] j = None"
  by (simp add: cell_def)

lemma cell_array_set: "cell (array_set arr i v) j = (if j = i then Some v else cell arr j)"
  by (auto simp: cell_def array_set_def nth_append)

lemma every_from_iff:
  "every_from i f arr \<longleftrightarrow> (\<forall>j x. cell arr j = Some x \<longrightarrow> f x (i + j))"
proof (induction i f arr rule: every_from.induct)
  case (1 i f)
  show ?case by (simp add: cell_def)
next
  case (2 i f arr)
  have "(\<forall>j x. cell (None # arr) j = Some x \<longrightarrow> f x (i + j)) \<longleftrightarrow>
        (\<forall>j x. cell arr j = Some x \<longrightarrow> f x (Suc i + j))"
  proof
    assume h: "\<forall>j x. cell (None # arr) j = Some x \<longrightarrow> f x (i + j)"
    show "\<forall>j x. cell arr j = Some x \<longrightarrow> f x (Suc i + j)"
    proof (intro allI impI)
      fix j x assume "cell arr j = Some x"
      then have "cell (None # arr) (Suc j) = Some x" by (simp add: cell_def split: if_splits)
      with h have "f x (i + Suc j)" by blast
      then show "f x (Suc i + j)" by simp
    qed
  next
    assume h: "\<forall>j x. cell arr j = Some x \<longrightarrow> f x (Suc i + j)"
    show "\<forall>j x. cell (None # arr) j = Some x \<longrightarrow> f x (i + j)"
    proof (intro allI impI)
      fix j x assume c: "cell (None # arr) j = Some x"
      then obtain j' where j: "j = Suc j'" by (cases j) (auto simp: cell_def)
      with c have "cell arr j' = Some x" by (simp add: cell_def split: if_splits)
      with h have "f x (Suc i + j')" by blast
      with j show "f x (i + j)" by simp
    qed
  qed
  with 2 show ?case by simp
next
  case (3 i f y arr)
  have "(\<forall>j x. cell (Some y # arr) j = Some x \<longrightarrow> f x (i + j)) \<longleftrightarrow>
        (f y i \<and> (\<forall>j x. cell arr j = Some x \<longrightarrow> f x (Suc i + j)))"
  proof
    assume h: "\<forall>j x. cell (Some y # arr) j = Some x \<longrightarrow> f x (i + j)"
    have "cell (Some y # arr) 0 = Some y" by (simp add: cell_def)
    with h have a: "f y (i + 0)" by blast
    have "\<forall>j x. cell arr j = Some x \<longrightarrow> f x (Suc i + j)"
    proof (intro allI impI)
      fix j x assume "cell arr j = Some x"
      then have "cell (Some y # arr) (Suc j) = Some x" by (simp add: cell_def split: if_splits)
      with h have "f x (i + Suc j)" by blast
      then show "f x (Suc i + j)" by simp
    qed
    with a show "f y i \<and> (\<forall>j x. cell arr j = Some x \<longrightarrow> f x (Suc i + j))" by simp
  next
    assume h: "f y i \<and> (\<forall>j x. cell arr j = Some x \<longrightarrow> f x (Suc i + j))"
    show "\<forall>j x. cell (Some y # arr) j = Some x \<longrightarrow> f x (i + j)"
    proof (intro allI impI)
      fix j x assume c: "cell (Some y # arr) j = Some x"
      show "f x (i + j)"
      proof (cases j)
        case 0
        with c h show ?thesis by (simp add: cell_def)
      next
        case (Suc j')
        with c have "cell arr j' = Some x" by (simp add: cell_def split: if_splits)
        with h have "f x (Suc i + j')" by blast
        with Suc show ?thesis by simp
      qed
    qed
  qed
  with 3 show ?case by simp
qed

lemma every_iff: "every f arr \<longleftrightarrow> (\<forall>j x. cell arr j = Some x \<longrightarrow> f x j)"
  by (simp add: every_def every_from_iff)

lemma loop_length [simp]: "pattern_length (parsePathPattern_loop i parts p) = pattern_length p"
  by (induction i parts p rule: parsePathPattern_loop.induct)
     (subst parsePathPattern_loop.simps, simp add: Let_def)

lemma loop_handler [simp]: "pattern_handler (parsePathPattern_loop i parts p) = pattern_handler p"
  by (induction i parts p rule: parsePathPattern_loop.induct)
     (subst parsePathPattern_loop.simps, simp add: Let_def)

lemma loop_params:
  "pattern_params (parsePathPattern_loop i parts p) = readParams_record i parts (pattern_params p)"
  by (induction i parts p rule: parsePathPattern_loop.induct)
     (subst parsePathPattern_loop.simps, subst readParams_record.simps, simp add: Let_def)

lemma loop_cell:
  "cell (pattern_path (parsePathPattern_loop i parts p)) j =
     (if i \<le> j \<and> j < length parts \<and> fst_str (parts ! j) \<noteq> Some '':''
      then Some (parts ! j) else cell (pattern_path p) j)"
proof (induction i parts p rule: parsePathPattern_loop.induct)
  case (1 i parts p)
  show ?case
  proof (cases "i < length parts")
    case False
    then show ?thesis by (subst parsePathPattern_loop.simps) auto
  next
    case True
    show ?thesis
      apply (subst parsePathPattern_loop.simps)
      using True 1 [OF True refl]
      apply (simp add: Let_def cell_array_set)
      done
  qed
qed

lemma map_of_obj_set:
  "map_of (obj_set ob key v) k =
     (if key = ''__proto__'' then map_of ob k else if k = key then Some v else map_of ob k)"
  by (simp add: obj_set_def update_conv')

lemma record_proto:
  "map_of (readParams_record i parts rc) ''__proto__'' = map_of rc ''__proto__''"
proof (induction i parts rc rule: readParams_record.induct)
  case (1 i parts rc)
  show ?case
  proof (cases "i < length parts")
    case False
    then show ?thesis by (subst readParams_record.simps) simp
  next
    case True
    show ?thesis
      by (subst readParams_record.simps)
         (use True 1 [OF True refl] in \<open>simp add: Let_def map_of_obj_set\<close>)
  qed
qed

lemma record_untouched:
  "\<forall>k. i \<le> k \<and> k < length parts \<longrightarrow> parts ! k \<noteq> CHR '':'' # name \<Longrightarrow>
   map_of (readParams_record i parts rc) name = map_of rc name"
proof (induction i parts rc rule: readParams_record.induct)
  case (1 i parts rc)
  show ?case
  proof (cases "i < length parts")
    case False
    then show ?thesis by (subst readParams_record.simps) simp
  next
    case True
    have later: "\<forall>k. i + 1 \<le> k \<and> k < length parts \<longrightarrow> parts ! k \<noteq> CHR '':'' # name"
      using "1.prems" by auto
    have here: "parts ! i \<noteq> CHR '':'' # name"
      using "1.prems" True by auto
    have step: "map_of (if fst_str (parts ! i) = Some '':''
                        then obj_set rc (drop 1 (parts ! i)) i else rc) name = map_of rc name"
      using here by (auto simp: map_of_obj_set fst_str_colon)
    show ?thesis
      by (subst readParams_record.simps)
         (use True 1(1) [OF True refl later] step in \<open>simp add: Let_def\<close>)
  qed
qed

lemma record_last:
  "i \<le> j \<Longrightarrow> j < length parts \<Longrightarrow> parts ! j = CHR '':'' # name \<Longrightarrow> name \<noteq> ''__proto__'' \<Longrightarrow>
   \<forall>k. j < k \<and> k < length parts \<longrightarrow> parts ! k \<noteq> CHR '':'' # name \<Longrightarrow>
   map_of (readParams_record i parts rc) name = Some j"
proof (induction i parts rc rule: readParams_record.induct)
  case (1 i parts rc)
  have True: "i < length parts" using "1.prems" by simp
  show ?case
  proof (cases "i = j")
    case True
    have rest: "\<forall>k. i + 1 \<le> k \<and> k < length parts \<longrightarrow> parts ! k \<noteq> CHR '':'' # name"
      using "1.prems" True by auto
    have "map_of (readParams_record (i + 1) parts (obj_set rc name i)) name
            = map_of (obj_set rc name i) name"
      by (rule record_untouched [OF rest])
    also have "\<dots> = Some i" using "1.prems" by (simp add: map_of_obj_set)
    finally show ?thesis
      by (subst readParams_record.simps)
         (use True "1.prems" in \<open>simp add: Let_def fst_str_def\<close>)
  next
    case False
    then have le: "i + 1 \<le> j" using "1.prems" by simp
    show ?thesis
      by (subst readParams_record.simps)
         (use \<open>i < length parts\<close> 1(1) [OF \<open>i < length parts\<close> refl le "1.prems"(2-5)]
           in \<open>simp add: Let_def\<close>)
  qed
qed

lemma bind_params_map_of:
  "map_of (bind_params parts rc keys params) name =
     (if name \<in> set keys \<and> name \<noteq> ''__proto__'' then Some (idx_of parts rc name)
      else map_of params name)"
  by (induction keys arbitrary: params) (auto simp: map_of_obj_set)

lemma bind_params_record:
  "map_of rc ''__proto__'' = None \<Longrightarrow>
   map_of (bind_params parts rc (obj_keys rc) []) name =
     (case map_of rc name of None \<Rightarrow> None | Some i \<Rightarrow> Some (idx parts i))"
proof (cases "map_of rc name")
  case None
  then have "name \<notin> set (obj_keys rc)"
    by (simp add: obj_keys_def map_of_eq_None_iff)
  with None show ?thesis by (simp add: bind_params_map_of)
next
  case (Some i)
  assume proto: "map_of rc ''__proto__'' = None"
  from Some have "name \<in> set (obj_keys rc)"
    unfolding obj_keys_def using map_of_eq_None_iff [of rc name] by simp
  moreover from Some proto have "name \<noteq> ''__proto__''" by auto
  ultimately show ?thesis using Some by (simp add: bind_params_map_of idx_of_def)
qed

lemma compile_length [simp]:
  "pattern_length (parsePathPattern pattern h) = length (split CHR ''/'' pattern)"
  by (simp add: parsePathPattern_def Let_def)

lemma compile_handler [simp]: "pattern_handler (parsePathPattern pattern h) = h"
  by (simp add: parsePathPattern_def Let_def)

lemma compile_params:
  "pattern_params (parsePathPattern pattern h) =
     (if pattern = ''*'' then [] else readParams_record 0 (split CHR ''/'' pattern) [])"
  by (simp add: parsePathPattern_def Let_def loop_params)

lemma compile_cell:
  "cell (pattern_path (parsePathPattern pattern h)) j =
     (if pattern \<noteq> ''*'' \<and> j < length (split CHR ''/'' pattern)
           \<and> fst_str (split CHR ''/'' pattern ! j) \<noteq> Some '':''
      then Some (split CHR ''/'' pattern ! j) else None)"
  by (simp add: parsePathPattern_def Let_def loop_cell cell_Nil)

lemma compatible_iff:
  "compatible locationParts (parsePathPattern pattern h) \<longleftrightarrow> literals_hold pattern locationParts"
  unfolding compatible_def every_iff compile_cell literals_hold_def Let_def
  by (auto split: if_splits)

lemma compile_params_proto:
  "map_of (pattern_params (parsePathPattern pattern h)) ''__proto__'' = None"
  by (simp add: compile_params record_proto)

lemma find_parsedRoutes:
  "List.find P (parsedRoutes routes) = Some m \<Longrightarrow>
   \<exists>pattern h. (pattern, h) \<in> set routes \<and> m = parsePathPattern pattern h \<and> P m"
  unfolding parsedRoutes_def find_Some_iff by (auto simp: in_set_conv_nth) (metis prod.collapse case_prod_conv)

lemma dispatch_Some:
  "List.find (compatible (split CHR ''/'' location)) parsed = Some m \<Longrightarrow>
   dispatch parsed router location =
     Inr (pattern_handler m,
          \<lparr>prefixPath = prefixPath router
                          @ join ''/'' (take (pattern_length m) (split CHR ''/'' location)),
           path = Behavior_of (''/'' @ join ''/'' (drop (pattern_length m) (split CHR ''/'' location))),
           config = config router\<rparr>,
          bind_params (split CHR ''/'' location) (pattern_params m) (obj_keys (pattern_params m)) [])"
  by (simp add: dispatch_def Let_def)

lemma dispatch_None:
  "List.find (compatible (split CHR ''/'' location)) parsed = None \<Longrightarrow>
   dispatch parsed router location = Inl TypeError"
  by (simp add: dispatch_def Let_def)

lemma held_at: "f (b t) = Inr x \<Longrightarrow> f (b 0) = Inr x0 \<Longrightarrow> held f b x0 t = x"
  by (cases t) simp_all

lemma routePath_throws:
  "dispatch (parsedRoutes routes) router (path router 0) = Inl e \<Longrightarrow> routePath routes router = Inl e"
  by (simp add: routePath_def Behavior_map_throwing_def routeLocation_def)

lemma routePath_returns:
  assumes "\<And>location. \<exists>call. dispatch (parsedRoutes routes) router location = Inr call"
  shows "\<exists>b. routePath routes router = Inr b
           \<and> (\<exists>h r ps. dispatch (parsedRoutes routes) router (path router t) = Inr (h, r, ps)
                 \<and> b t = h r ps)"
proof -
  obtain h0 r0 ps0 where
    d0: "dispatch (parsedRoutes routes) router (path router 0) = Inr (h0, r0, ps0)"
    using assms [of "path router 0"] by auto
  obtain h r ps where
    d: "dispatch (parsedRoutes routes) router (path router t) = Inr (h, r, ps)"
    using assms [of "path router t"] by auto
  have f0: "routeLocation routes router (path router 0) = Inr (h0 r0 ps0)"
    using d0 by (simp add: routeLocation_def)
  have ft: "routeLocation routes router (path router t) = Inr (h r ps)"
    using d by (simp add: routeLocation_def)
  have "held (routeLocation routes router) (path router) (h0 r0 ps0) t = h r ps"
    using ft f0 by (rule held_at [where f = "routeLocation routes router" and b = "path router"])
  moreover have "routePath routes router
                   = Inr (held (routeLocation routes router) (path router) (h0 r0 ps0))"
    using f0 by (simp add: routePath_def Behavior_map_throwing_def)
  ultimately show ?thesis using d by blast
qed

section \<open>The catch-all pattern is always found\<close>

text \<open>
  C9. For every route table whose keys include the pattern \<^verbatim>\<open>*\<close> and for every
  location, the matching step of \<^verbatim>\<open>routePath\<close> finds a compatible pattern: \<^verbatim>\<open>find\<close>
  returns a match, so the failure of \<^verbatim>\<open>match.length\<close> on \<^verbatim>\<open>undefined\<close> cannot happen
  and the handler is called: \<^verbatim>\<open>routePath\<close> returns a behavior, whose value at every
  time is the result of the handler found for the location of that time.
\<close>

theorem wildcard_route_always_found:
  assumes "''*'' \<in> fst ` set routes"
  shows "(\<exists>match. List.find (compatible (split CHR ''/'' location)) (parsedRoutes routes) = Some match)
         \<and> dispatch (parsedRoutes routes) router location \<noteq> Inl TypeError
         \<and> (\<exists>b. routePath routes router = Inr b
               \<and> (\<exists>h r ps. dispatch (parsedRoutes routes) router (path router t) = Inr (h, r, ps)
                     \<and> b t = h r ps))"
proof -
  from assms obtain h where "(''*'', h) \<in> set routes" by auto
  then have mem: "parsePathPattern ''*'' h \<in> set (parsedRoutes routes)"
    by (force simp: parsedRoutes_def)
  have ok: "\<And>parts. compatible parts (parsePathPattern ''*'' h)"
    by (simp add: compatible_iff literals_hold_def)
  have found: "\<And>loc. \<exists>match. List.find (compatible (split CHR ''/'' loc)) (parsedRoutes routes) = Some match"
  proof -
    fix loc
    have "List.find (compatible (split CHR ''/'' loc)) (parsedRoutes routes) \<noteq> None"
      using mem ok by (auto simp: find_None_iff)
    then show "\<exists>match. List.find (compatible (split CHR ''/'' loc)) (parsedRoutes routes) = Some match"
      by auto
  qed
  have a: "dispatch (parsedRoutes routes) router location \<noteq> Inl TypeError"
    using found [of location] by (auto simp: dispatch_Some)
  have returns: "\<And>loc. \<exists>call. dispatch (parsedRoutes routes) router loc = Inr call"
  proof -
    fix loc
    from found [of loc] obtain m where
      "List.find (compatible (split CHR ''/'' loc)) (parsedRoutes routes) = Some m" by blast
    from dispatch_Some [OF this, of router]
    show "\<exists>call. dispatch (parsedRoutes routes) router loc = Inr call" by blast
  qed
  note b = routePath_returns [of routes router t, OF returns]
  from found [of location] a b show ?thesis by blast
qed

theorem wildcard_route_always_found_witness:
  "''*'' \<in> fst ` set [(''/a'', unit_handler), (''*'', unit_handler)]
   \<and> (\<exists>match. List.find (compatible (split CHR ''/'' ''/zzz''))
                 (parsedRoutes [(''/a'', unit_handler), (''*'', unit_handler)]) = Some match)
   \<and> dispatch (parsedRoutes [(''/a'', unit_handler), (''*'', unit_handler)])
        (top_router ''/zzz'') ''/zzz'' \<noteq> Inl TypeError
   \<and> (\<exists>b. routePath [(''/a'', unit_handler), (''*'', unit_handler)] (top_router ''/zzz'') = Inr b)"
proof -
  have h: "''*'' \<in> fst ` set [(''/a'', unit_handler), (''*'', unit_handler)]" by simp
  show ?thesis
    using h wildcard_route_always_found [OF h, of "''/zzz''" "top_router ''/zzz''" 0] by blast
qed

section \<open>Evaluating the router on concrete inputs\<close>

lemmas run_defs =
  dispatch_def parsedRoutes_def parsePathPattern_def parsePathPattern_loop.simps
  compatible_def every_def array_set_def fst_str_def idx_def idx_of_def obj_set_def
  obj_keys_def Let_def

lemma split_head_empty:
  "split sep s ! 0 = [] \<longleftrightarrow> s = [] \<or> take 1 s = [sep]"
proof (cases s)
  case Nil
  then show ?thesis by simp
next
  case (Cons c cs)
  then show ?thesis
    using split_not_Nil [of sep cs] by (cases "split sep cs") auto
qed

lemma find_None_literals:
  "\<forall>(pattern, handler) \<in> set routes. \<not> literals_hold pattern locationParts \<Longrightarrow>
   List.find (compatible locationParts) (parsedRoutes routes) = None"
  by (auto simp: find_None_iff parsedRoutes_def compatible_iff)

section \<open>No compatible pattern\<close>

text \<open>
  C4. For every route table and location such that the literal constraints of no
  registered pattern hold of the location, the match fails with an error and calls no
  handler: \<^verbatim>\<open>find\<close> returns \<^verbatim>\<open>undefined\<close> and reading \<^verbatim>\<open>match.length\<close> throws, out of
  the function mapped over the location, before any handler is looked at. This thrown
  \<^verbatim>\<open>TypeError\<close> is the no-match error. When the location is the one that the router
  has at the call of \<^verbatim>\<open>routePath\<close>, as is the constant location of a sub-router, the
  error leaves through that call. In particular the table with the patterns \<^verbatim>\<open>/a\<close> and
  \<^verbatim>\<open>/b\<close> fails so at the location \<^verbatim>\<open>/c\<close>.
\<close>

theorem no_compatible_pattern_throws:
  assumes "\<forall>(pattern, handler) \<in> set routes. \<not> literals_hold pattern (split CHR ''/'' location)"
  shows "dispatch (parsedRoutes routes) router location = Inl TypeError
         \<and> routeLocation routes router location = Inl TypeError
         \<and> (path router 0 = location \<longrightarrow> routePath routes router = Inl TypeError)
         \<and> routePath routes (router\<lparr>path := Behavior_of location\<rparr>) = Inl TypeError
         \<and> dispatch (parsedRoutes [(''/a'', H1), (''/b'', H2)]) router ''/c'' = Inl TypeError
         \<and> routePath [(''/a'', H1), (''/b'', H2)] (router\<lparr>path := Behavior_of ''/c''\<rparr>)
             = Inl TypeError"
proof -
  have a: "\<And>r. dispatch (parsedRoutes routes) r location = Inl TypeError"
    by (rule dispatch_None [OF find_None_literals [OF assms]])
  have a': "routeLocation routes router location = Inl TypeError"
    by (simp add: routeLocation_def a)
  have b: "path router 0 = location \<longrightarrow> routePath routes router = Inl TypeError"
    using a [of router] by (auto intro: routePath_throws)
  have b': "routePath routes (router\<lparr>path := Behavior_of location\<rparr>) = Inl TypeError"
    by (rule routePath_throws) (simp add: Behavior_of_def a)
  have "\<forall>(pattern, handler) \<in> set [(''/a'', H1), (''/b'', H2)].
          \<not> literals_hold pattern (split CHR ''/'' ''/c'')"
    by (simp add: literals_hold_def idx_def Let_def fst_str_def atLeast0_lessThan_Suc)
  then have c: "\<And>r. dispatch (parsedRoutes [(''/a'', H1), (''/b'', H2)]) r ''/c'' = Inl TypeError"
    by (rule dispatch_None [OF find_None_literals])
  have c': "routePath [(''/a'', H1), (''/b'', H2)] (router\<lparr>path := Behavior_of ''/c''\<rparr>)
              = Inl TypeError"
    by (rule routePath_throws) (simp add: Behavior_of_def c)
  from a [of router] a' b b' c [of router] c' show ?thesis by blast
qed

theorem no_compatible_pattern_throws_witness:
  "dispatch (parsedRoutes [(''/users/:id'', unit_handler), (''/about'', unit_handler)])
     (top_router ''/posts/7'') ''/posts/7'' = Inl TypeError
   \<and> routePath [(''/users/:id'', unit_handler), (''/about'', unit_handler)]
        (top_router ''/posts/7'') = Inl TypeError"
proof -
  have h: "\<forall>(pattern, handler) \<in> set [(''/users/:id'', unit_handler), (''/about'', unit_handler)].
             \<not> literals_hold pattern (split CHR ''/'' ''/posts/7'')"
    by (simp add: literals_hold_def idx_def Let_def fst_str_def atLeast0_lessThan_Suc)
  have p: "path (top_router ''/posts/7'') 0 = ''/posts/7''"
    by (simp add: top_router_def Behavior_of_def)
  show ?thesis
    using no_compatible_pattern_throws [OF h, of "top_router ''/posts/7''"] p by blast
qed

section \<open>The catch-all pattern\<close>

text \<open>
  C5. Compiling the pattern \<^verbatim>\<open>*\<close> yields a compiled pattern with no literal
  constraint, no parameter and length 1. It is compatible with every location; when it
  is the first compatible pattern, the match consumes exactly one location segment (the
  first one) and binds no parameter. In particular \<^verbatim>\<open>*\<close> matches the location
  \<^verbatim>\<open>/anything/at/all\<close> with empty params.
\<close>

theorem wildcard_pattern_consumes_one_segment:
  "parsePathPattern ''*'' h
     = \<lparr>pattern_path = [], pattern_params = [], pattern_length = 1, pattern_handler = h\<rparr>
   \<and> compatible locationParts (parsePathPattern ''*'' h)
   \<and> (List.find (compatible (split CHR ''/'' location)) parsed = Some (parsePathPattern ''*'' h) \<longrightarrow>
        dispatch parsed router location
          = Inr (h,
                 \<lparr>prefixPath = prefixPath router @ join ''/'' (take 1 (split CHR ''/'' location)),
                  path = Behavior_of (''/'' @ join ''/'' (drop 1 (split CHR ''/'' location))),
                  config = config router\<rparr>,
                 [])
        \<and> length (take 1 (split CHR ''/'' location)) = 1)
   \<and> dispatch (parsedRoutes [(''*'', h)]) router ''/anything/at/all''
        = Inr (h,
               \<lparr>prefixPath = prefixPath router, path = Behavior_of ''/anything/at/all'',
                config = config router\<rparr>,
               [])"
proof -
  have a: "parsePathPattern ''*'' h
     = \<lparr>pattern_path = [], pattern_params = [], pattern_length = 1, pattern_handler = h\<rparr>"
    by (simp add: parsePathPattern_def)
  have b: "compatible locationParts (parsePathPattern ''*'' h)"
    by (simp add: compatible_iff literals_hold_def)
  have one: "length (take 1 (split CHR ''/'' location)) = 1"
    using split_not_Nil [of "CHR ''/''" location] by (cases "split CHR ''/'' location") simp_all
  have c: "List.find (compatible (split CHR ''/'' location)) parsed = Some (parsePathPattern ''*'' h) \<longrightarrow>
        dispatch parsed router location
          = Inr (h,
                 \<lparr>prefixPath = prefixPath router @ join ''/'' (take 1 (split CHR ''/'' location)),
                  path = Behavior_of (''/'' @ join ''/'' (drop 1 (split CHR ''/'' location))),
                  config = config router\<rparr>,
                 [])
        \<and> length (take 1 (split CHR ''/'' location)) = 1"
  proof
    assume f: "List.find (compatible (split CHR ''/'' location)) parsed = Some (parsePathPattern ''*'' h)"
    show "dispatch parsed router location
          = Inr (h,
                 \<lparr>prefixPath = prefixPath router @ join ''/'' (take 1 (split CHR ''/'' location)),
                  path = Behavior_of (''/'' @ join ''/'' (drop 1 (split CHR ''/'' location))),
                  config = config router\<rparr>,
                 [])
        \<and> length (take 1 (split CHR ''/'' location)) = 1"
      using one by (simp add: dispatch_Some [OF f]) (simp add: a obj_keys_def)
  qed
  have d: "dispatch (parsedRoutes [(''*'', h)]) router ''/anything/at/all''
        = Inr (h,
               \<lparr>prefixPath = prefixPath router, path = Behavior_of ''/anything/at/all'',
                config = config router\<rparr>,
               [])"
    by (simp add: run_defs)
  from a b c d show ?thesis by blast
qed

theorem wildcard_pattern_consumes_one_segment_witness:
  "dispatch (parsedRoutes [(''/a'', unit_handler), (''*'', unit_handler)]) (top_router ''/x/y'') ''/x/y''
     = Inr (unit_handler,
            \<lparr>prefixPath = prefixPath (top_router ''/x/y'') @ join ''/'' (take 1 (split CHR ''/'' ''/x/y'')),
             path = Behavior_of (''/'' @ join ''/'' (drop 1 (split CHR ''/'' ''/x/y''))),
             config = config (top_router ''/x/y'')\<rparr>,
            [])
   \<and> ''/'' @ join ''/'' (drop 1 (split CHR ''/'' ''/x/y'')) = ''/x/y''"
proof -
  have f: "List.find (compatible (split CHR ''/'' ''/x/y''))
             (parsedRoutes [(''/a'', unit_handler), (''*'', unit_handler)])
           = Some (parsePathPattern ''*'' unit_handler)"
    by (simp add: parsedRoutes_def compatible_iff literals_hold_def idx_def Let_def fst_str_def
                  atLeast0_lessThan_Suc)
  have r: "''/'' @ join ''/'' (drop 1 (split CHR ''/'' ''/x/y'')) = ''/x/y''"
    by simp
  show ?thesis
    using wildcard_pattern_consumes_one_segment
            [of unit_handler "[]" "''/x/y''"
                "parsedRoutes [(''/a'', unit_handler), (''*'', unit_handler)]" "top_router ''/x/y''"]
          f r
    by blast
qed

section \<open>The empty pattern\<close>

text \<open>
  C7 says that the compiled empty pattern matches the root location only. It matches
  the location \<^verbatim>\<open>/a/b\<close>, consuming the empty first segment and leaving the whole
  location as the rest.
\<close>

theorem empty_pattern_matches_below_root:
  "dispatch (parsedRoutes [([], unit_handler)]) (top_router ''/a/b'') ''/a/b''
     = Inr (unit_handler,
            \<lparr>prefixPath = [], path = Behavior_of ''/a/b'', config = \<lparr>useHash = False\<rparr>\<rparr>,
            [])"
  by (simp add: run_defs top_router_def)

text \<open>
  C7, as the code has it. Compilation never fails, on the empty string either, and has
  no special case for it (the only special case is \<^verbatim>\<open>*\<close>): the empty string compiles,
  like any other pattern, to as many segments as it splits into, which is one, the
  empty literal. That compiled pattern is compatible with every location whose first
  segment is empty, which is the empty location and every location that starts with a
  slash, not the root alone.
\<close>

theorem empty_pattern_is_one_empty_literal:
  "parsePathPattern [] h
     = \<lparr>pattern_path = [Some []], pattern_params = [], pattern_length = 1, pattern_handler = h\<rparr>
   \<and> (compatible (split CHR ''/'' location) (parsePathPattern [] h)
        \<longleftrightarrow> (location = [] \<or> take 1 location = ''/''))
   \<and> 0 < pattern_length (parsePathPattern pattern h)
   \<and> pattern_length (parsePathPattern pattern h) = length (split CHR ''/'' pattern)
   \<and> pattern_handler (parsePathPattern pattern h) = h"
proof -
  have a: "parsePathPattern [] h
     = \<lparr>pattern_path = [Some []], pattern_params = [], pattern_length = 1, pattern_handler = h\<rparr>"
    by (simp add: parsePathPattern_def parsePathPattern_loop.simps array_set_def fst_str_def Let_def)
  have "compatible (split CHR ''/'' location) (parsePathPattern [] h)
          \<longleftrightarrow> split CHR ''/'' location ! 0 = []"
    using length_split_pos [of "CHR ''/''" location]
    by (auto simp: compatible_iff literals_hold_def idx_def fst_str_def)
  then have b: "compatible (split CHR ''/'' location) (parsePathPattern [] h)
        \<longleftrightarrow> (location = [] \<or> take 1 location = ''/'')"
    by (simp add: split_head_empty)
  have c: "0 < pattern_length (parsePathPattern pattern h)"
    by (simp add: split_not_Nil)
  from a b c show ?thesis by simp
qed

section \<open>Creating a router\<close>

text \<open>
  C8. Router construction should throw exactly when the navigation mode that the
  configuration requests is not supported by the host. In a host that supports hash
  routing but not the history API, a configuration that requests hash routing is
  refused, with the message of the history mode: the second test of \<^verbatim>\<open>createRouter\<close>
  does not look at \<^verbatim>\<open>useHash\<close>.
\<close>

theorem createRouter_hash_mode_needs_history:
  "createRouter \<lparr>supportHistory = False, supportHash = True,
                  locationHashB = hashB, locationB = pathB\<rparr> \<lparr>useHash = True\<rparr>
     = Inl (Error ''No support for history API.'')"
  by (simp add: createRouter_def)

section \<open>The rest and the matched path\<close>

lemma dispatch_Inr:
  "dispatch parsed router location = Inr (h, newRouter, params) \<Longrightarrow>
   \<exists>m. List.find (compatible (split CHR ''/'' location)) parsed = Some m
       \<and> h = pattern_handler m
       \<and> newRouter = \<lparr>prefixPath = prefixPath router
                          @ join ''/'' (take (pattern_length m) (split CHR ''/'' location)),
           path = Behavior_of (''/'' @ join ''/'' (drop (pattern_length m) (split CHR ''/'' location))),
           config = config router\<rparr>
       \<and> params = bind_params (split CHR ''/'' location) (pattern_params m)
                    (obj_keys (pattern_params m)) []"
  by (auto simp: dispatch_def Let_def split: option.splits)

text \<open>
  C3 says that every successful match consumes as many location segments as the matched
  pattern has. The pattern \<^verbatim>\<open>/a/:id\<close> has three segments and matches the location
  \<^verbatim>\<open>/a\<close>, which has two: nothing constrains the index of the parameter, and the
  matched path is made of the two segments there are.
\<close>

theorem short_location_consumes_fewer_segments:
  "dispatch (parsedRoutes [(''/a/:id'', unit_handler)]) (top_router ''/a'') ''/a''
     = Inr (unit_handler,
            \<lparr>prefixPath = ''/a'', path = Behavior_of ''/'', config = \<lparr>useHash = False\<rparr>\<rparr>,
            [(''id'', Undefined)])
   \<and> length (split CHR ''/'' ''/a'') = 2
   \<and> length (split CHR ''/'' ''/a/:id'') = 3"
  by (simp add: run_defs top_router_def)

text \<open>
  C3, as the code has it. Every successful match is the match of the first compatible
  pattern of the table; with \<open>n\<close> the number of segments that pattern splits into, the
  matched path is the join of the first \<open>n\<close> location segments, which are \<open>n\<close> segments
  when the location has that many and all of its segments otherwise; the rest that the
  sub-router carries is a slash followed by the join of the location segments from index
  \<open>n\<close> on, so it always starts with a slash. In particular the pattern \<^verbatim>\<open>/users/:id\<close>
  at the location \<^verbatim>\<open>/users/42/posts\<close> leaves the rest \<^verbatim>\<open>/posts\<close>.
\<close>

theorem successful_match_rest:
  assumes "dispatch (parsedRoutes routes) router location = Inr (h, newRouter, params)"
  shows "(\<exists>pattern. (pattern, h) \<in> set routes
            \<and> List.find (compatible (split CHR ''/'' location)) (parsedRoutes routes)
                = Some (parsePathPattern pattern h)
            \<and> prefixPath newRouter
                = prefixPath router
                  @ join ''/'' (take (length (split CHR ''/'' pattern)) (split CHR ''/'' location))
            \<and> path newRouter
                = Behavior_of (''/'' @ join ''/''
                    (drop (length (split CHR ''/'' pattern)) (split CHR ''/'' location)))
            \<and> length (take (length (split CHR ''/'' pattern)) (split CHR ''/'' location))
                = min (length (split CHR ''/'' pattern)) (length (split CHR ''/'' location)))
         \<and> (\<exists>r. path newRouter = Behavior_of (CHR ''/'' # r))
         \<and> dispatch (parsedRoutes [(''/users/:id'', H)]) router ''/users/42/posts''
             = Inr (H,
                    \<lparr>prefixPath = prefixPath router @ ''/users/42'',
                     path = Behavior_of ''/posts'', config = config router\<rparr>,
                    [(''id'', Str ''42'')])"
proof -
  from dispatch_Inr [OF assms] obtain m where
    f: "List.find (compatible (split CHR ''/'' location)) (parsedRoutes routes) = Some m"
    and h: "h = pattern_handler m"
    and r: "newRouter = \<lparr>prefixPath = prefixPath router
                          @ join ''/'' (take (pattern_length m) (split CHR ''/'' location)),
           path = Behavior_of (''/'' @ join ''/'' (drop (pattern_length m) (split CHR ''/'' location))),
           config = config router\<rparr>"
    by blast
  from find_parsedRoutes [OF f] obtain pattern h' where
    mem: "(pattern, h') \<in> set routes" and m: "m = parsePathPattern pattern h'"
    by blast
  from h m have hh: "h' = h" by simp
  have a: "\<exists>pattern. (pattern, h) \<in> set routes
            \<and> List.find (compatible (split CHR ''/'' location)) (parsedRoutes routes)
                = Some (parsePathPattern pattern h)
            \<and> prefixPath newRouter
                = prefixPath router
                  @ join ''/'' (take (length (split CHR ''/'' pattern)) (split CHR ''/'' location))
            \<and> path newRouter
                = Behavior_of (''/'' @ join ''/''
                    (drop (length (split CHR ''/'' pattern)) (split CHR ''/'' location)))
            \<and> length (take (length (split CHR ''/'' pattern)) (split CHR ''/'' location))
                = min (length (split CHR ''/'' pattern)) (length (split CHR ''/'' location))"
    using mem f r unfolding m hh by (intro exI [of _ pattern]) (simp add: min.commute)
  have b: "\<exists>r. path newRouter = Behavior_of (CHR ''/'' # r)"
    using r by auto
  have c: "dispatch (parsedRoutes [(''/users/:id'', H)]) router ''/users/42/posts''
             = Inr (H,
                    \<lparr>prefixPath = prefixPath router @ ''/users/42'',
                     path = Behavior_of ''/posts'', config = config router\<rparr>,
                    [(''id'', Str ''42'')])"
    by (simp add: run_defs)
  from a b c show ?thesis by blast
qed

theorem successful_match_rest_witness:
  "(\<exists>pattern. (pattern, unit_handler) \<in> set [(''/a'', unit_handler), (''/b/:k'', unit_handler)]
      \<and> prefixPath \<lparr>prefixPath = ''/b/1'', path = Behavior_of ''/c/d'', config = \<lparr>useHash = False\<rparr>\<rparr>
          = prefixPath (top_router ''/b/1/c/d'')
            @ join ''/'' (take (length (split CHR ''/'' pattern)) (split CHR ''/'' ''/b/1/c/d'')))
   \<and> (\<exists>r. path \<lparr>prefixPath = ''/b/1'', path = Behavior_of ''/c/d'', config = \<lparr>useHash = False\<rparr>\<rparr>
            = Behavior_of (CHR ''/'' # r))"
proof -
  have d: "dispatch (parsedRoutes [(''/a'', unit_handler), (''/b/:k'', unit_handler)])
             (top_router ''/b/1/c/d'') ''/b/1/c/d''
           = Inr (unit_handler,
                  \<lparr>prefixPath = ''/b/1'', path = Behavior_of ''/c/d'', config = \<lparr>useHash = False\<rparr>\<rparr>,
                  [(''k'', Str ''1'')])"
    by (simp add: run_defs top_router_def)
  show ?thesis
    using successful_match_rest [OF d] by blast
qed

section \<open>Nested matches\<close>

lemma descend_prefix:
  "descend tables router t = Inr final \<Longrightarrow>
   prefixPath final = prefixPath router @ concat (matchedPaths tables (path router t))
   \<and> length (matchedPaths tables (path router t)) = length tables"
proof (induction tables arbitrary: router)
  case Nil
  then show ?case by simp
next
  case (Cons routes tables)
  from Cons.prems obtain h newRouter params where
    d: "dispatch (parsedRoutes routes) router (path router t) = Inr (h, newRouter, params)"
    and rest: "descend tables newRouter t = Inr final"
    by (auto split: sum.splits)
  from dispatch_Inr [OF d] obtain m where
    f: "List.find (compatible (split CHR ''/'' (path router t))) (parsedRoutes routes) = Some m"
    and r: "newRouter = \<lparr>prefixPath = prefixPath router
                          @ join ''/'' (take (pattern_length m) (split CHR ''/'' (path router t))),
           path = Behavior_of (''/'' @ join ''/'' (drop (pattern_length m) (split CHR ''/'' (path router t)))),
           config = config router\<rparr>"
    by blast
  have p: "path newRouter t
             = ''/'' @ join ''/'' (drop (pattern_length m) (split CHR ''/'' (path router t)))"
    using r by (simp add: Behavior_of_def)
  from Cons.IH [OF rest] show ?case
    unfolding p using f r by (simp add: Let_def)
qed

text \<open>
  C6. Each successful match builds the sub-router with the prefix of the parent router
  followed by the matched path. So along a chain of nested successful matches, one per
  table, the prefix of the last sub-router is the prefix of the first router followed by
  the paths matched at every level, in the order of descent, and it never gets shorter.
  In particular the pattern \<^verbatim>\<open>/app\<close> and, below it, the pattern \<^verbatim>\<open>/dashboard\<close> at
  the location \<^verbatim>\<open>/app/dashboard\<close> give the inner router the rest \<^verbatim>\<open>/dashboard\<close> and
  end with the prefix \<^verbatim>\<open>/app/dashboard\<close>.
\<close>

theorem nested_matches_accumulate_prefix:
  assumes "descend tables router t = Inr final"
  shows "prefixPath final = prefixPath router @ concat (matchedPaths tables (path router t))
         \<and> length (matchedPaths tables (path router t)) = length tables
         \<and> length (prefixPath router) \<le> length (prefixPath final)
         \<and> (dispatch parsed parent location = Inr (h, newRouter, params) \<longrightarrow>
               (\<exists>m. List.find (compatible (split CHR ''/'' location)) parsed = Some m
                  \<and> prefixPath newRouter
                      = prefixPath parent
                        @ join ''/'' (take (pattern_length m) (split CHR ''/'' location))))
         \<and> descend [[(''/app'', H1)], [(''/dashboard'', H2)]]
              \<lparr>prefixPath = [], path = Behavior_of ''/app/dashboard'', config = cfg\<rparr> t
             = Inr \<lparr>prefixPath = ''/app/dashboard'', path = Behavior_of ''/'', config = cfg\<rparr>
         \<and> dispatch (parsedRoutes [(''/app'', H1)])
              \<lparr>prefixPath = [], path = Behavior_of ''/app/dashboard'', config = cfg\<rparr>
              ''/app/dashboard''
             = Inr (H1,
                    \<lparr>prefixPath = ''/app'', path = Behavior_of ''/dashboard'', config = cfg\<rparr>,
                    [])
         \<and> matchedPaths [[(''/app'', H1)], [(''/dashboard'', H2)]] ''/app/dashboard''
             = [''/app'', ''/dashboard'']"
proof -
  note a = descend_prefix [OF assms]
  then have b: "length (prefixPath router) \<le> length (prefixPath final)" by simp
  have c: "dispatch (parsedRoutes [(''/app'', H1)])
              \<lparr>prefixPath = [], path = Behavior_of ''/app/dashboard'', config = cfg\<rparr>
              ''/app/dashboard''
             = Inr (H1,
                    \<lparr>prefixPath = ''/app'', path = Behavior_of ''/dashboard'', config = cfg\<rparr>,
                    [])"
    by (simp add: run_defs)
  have c': "dispatch (parsedRoutes [(''/dashboard'', H2)])
              \<lparr>prefixPath = ''/app'', path = Behavior_of ''/dashboard'', config = cfg\<rparr>
              ''/dashboard''
             = Inr (H2,
                    \<lparr>prefixPath = ''/app/dashboard'', path = Behavior_of ''/'', config = cfg\<rparr>,
                    [])"
    by (simp add: run_defs)
  have d: "descend [[(''/app'', H1)], [(''/dashboard'', H2)]]
              \<lparr>prefixPath = [], path = Behavior_of ''/app/dashboard'', config = cfg\<rparr> t
             = Inr \<lparr>prefixPath = ''/app/dashboard'', path = Behavior_of ''/'', config = cfg\<rparr>"
    using c c' by (simp add: Behavior_of_def [of "''/app/dashboard''"] Behavior_of_def [of "''/dashboard''"])
  have e: "matchedPaths [[(''/app'', H1)], [(''/dashboard'', H2)]] ''/app/dashboard''
             = [''/app'', ''/dashboard'']"
    by (simp add: run_defs)
  have s: "dispatch parsed parent location = Inr (h, newRouter, params) \<longrightarrow>
               (\<exists>m. List.find (compatible (split CHR ''/'' location)) parsed = Some m
                  \<and> prefixPath newRouter
                      = prefixPath parent
                        @ join ''/'' (take (pattern_length m) (split CHR ''/'' location)))"
  proof
    assume "dispatch parsed parent location = Inr (h, newRouter, params)"
    from dispatch_Inr [OF this]
    show "\<exists>m. List.find (compatible (split CHR ''/'' location)) parsed = Some m
                  \<and> prefixPath newRouter
                      = prefixPath parent
                        @ join ''/'' (take (pattern_length m) (split CHR ''/'' location))"
      by auto
  qed
  from a b c d e s show ?thesis by blast
qed

theorem nested_matches_accumulate_prefix_witness:
  "prefixPath \<lparr>prefixPath = ''/shop/items/9'', path = Behavior_of ''/edit'',
                config = \<lparr>useHash = False\<rparr>\<rparr>
     = prefixPath (top_router ''/shop/items/9/edit'')
       @ concat (matchedPaths [[(''/shop'', unit_handler)], [(''/items/:id'', unit_handler)]]
                   (path (top_router ''/shop/items/9/edit'') 0))
   \<and> matchedPaths [[(''/shop'', unit_handler)], [(''/items/:id'', unit_handler)]]
        ''/shop/items/9/edit'' = [''/shop'', ''/items/9'']"
proof -
  have s1: "dispatch (parsedRoutes [(''/shop'', unit_handler)]) (top_router ''/shop/items/9/edit'')
              ''/shop/items/9/edit''
            = Inr (unit_handler,
                   \<lparr>prefixPath = ''/shop'', path = Behavior_of ''/items/9/edit'',
                    config = \<lparr>useHash = False\<rparr>\<rparr>, [])"
    by (simp add: run_defs top_router_def)
  have s2: "dispatch (parsedRoutes [(''/items/:id'', unit_handler)])
              \<lparr>prefixPath = ''/shop'', path = Behavior_of ''/items/9/edit'',
               config = \<lparr>useHash = False\<rparr>\<rparr> ''/items/9/edit''
            = Inr (unit_handler,
                   \<lparr>prefixPath = ''/shop/items/9'', path = Behavior_of ''/edit'',
                    config = \<lparr>useHash = False\<rparr>\<rparr>, [(''id'', Str ''9'')])"
    by (simp add: run_defs)
  have p0: "path (top_router ''/shop/items/9/edit'') 0 = ''/shop/items/9/edit''"
    by (simp add: top_router_def Behavior_of_def)
  have d: "descend [[(''/shop'', unit_handler)], [(''/items/:id'', unit_handler)]]
             (top_router ''/shop/items/9/edit'') 0
           = Inr \<lparr>prefixPath = ''/shop/items/9'', path = Behavior_of ''/edit'',
                  config = \<lparr>useHash = False\<rparr>\<rparr>"
    using s1 s2 by (simp add: p0 Behavior_of_def [of "''/items/9/edit''"])
  have m: "matchedPaths [[(''/shop'', unit_handler)], [(''/items/:id'', unit_handler)]]
        ''/shop/items/9/edit'' = [''/shop'', ''/items/9'']"
    by (simp add: run_defs)
  show ?thesis
    using nested_matches_accumulate_prefix [OF d] m by blast
qed

section \<open>Patterns of literal segments\<close>

lemma join_Cons: "join sep (x # xs) = (if xs = [] then x else x @ sep @ join sep xs)"
  by (cases xs) simp_all

lemma join_split: "join [sep] (split sep s) = s"
proof (induction s)
  case Nil
  show ?case by simp
next
  case (Cons c cs)
  show ?case
  proof (cases "split sep cs")
    case Nil
    with split_not_Nil [of sep cs] show ?thesis by simp
  next
    case (Cons p ps)
    with Cons.IH show ?thesis by (auto simp: join_Cons split: if_splits)
  qed
qed

lemma record_no_params:
  "\<forall>part \<in> set parts. fst_str part \<noteq> Some '':'' \<Longrightarrow> readParams_record i parts rc = rc"
proof (induction i parts rc rule: readParams_record.induct)
  case (1 i parts rc)
  show ?case
  proof (cases "i < length parts")
    case False
    then show ?thesis by (subst readParams_record.simps) simp
  next
    case True
    then have "fst_str (parts ! i) \<noteq> Some '':''" using "1.prems" by simp
    then show ?thesis
      by (subst readParams_record.simps) (use True 1(1) [OF True refl "1.prems"] in \<open>simp add: Let_def\<close>)
  qed
qed

lemma literals_hold_literal_pattern:
  assumes "pattern \<noteq> ''*''"
      and "\<forall>part \<in> set (split CHR ''/'' pattern). fst_str part \<noteq> Some '':''"
  shows "literals_hold pattern locationParts
           \<longleftrightarrow> take (length (split CHR ''/'' pattern)) locationParts = split CHR ''/'' pattern"
proof -
  let ?pp = "split CHR ''/'' pattern"
  have "literals_hold pattern locationParts
          \<longleftrightarrow> (\<forall>i<length ?pp. i < length locationParts \<and> locationParts ! i = ?pp ! i)"
    using assms by (auto simp: literals_hold_def Let_def idx_def split: if_splits)
  also have "\<dots> \<longleftrightarrow> take (length ?pp) locationParts = ?pp"
  proof
    assume h: "\<forall>i<length ?pp. i < length locationParts \<and> locationParts ! i = ?pp ! i"
    then have "length ?pp \<le> length locationParts"
      by (metis not_le_imp_less less_irrefl)
    with h show "take (length ?pp) locationParts = ?pp"
      by (auto simp: list_eq_iff_nth_eq)
  next
    assume t: "take (length ?pp) locationParts = ?pp"
    then have len: "length ?pp \<le> length locationParts"
      by (metis length_take min.cobounded1)
    show "\<forall>i<length ?pp. i < length locationParts \<and> locationParts ! i = ?pp ! i"
    proof (intro allI impI)
      fix i assume i: "i < length ?pp"
      have "take (length ?pp) locationParts ! i = locationParts ! i" using i by simp
      with t i len show "i < length locationParts \<and> locationParts ! i = ?pp ! i" by simp
    qed
  qed
  finally show ?thesis .
qed

text \<open>
  C2 says that a pattern of literal segments matches only a location with the same
  segments, in number too. The pattern \<^verbatim>\<open>/a\<close> matches the longer location \<^verbatim>\<open>/a/b\<close>
  and leaves the rest \<^verbatim>\<open>/b\<close>.
\<close>

theorem literal_pattern_matches_longer_location:
  "dispatch (parsedRoutes [(''/a'', unit_handler)]) (top_router ''/a/b'') ''/a/b''
     = Inr (unit_handler,
            \<lparr>prefixPath = ''/a'', path = Behavior_of ''/b'', config = \<lparr>useHash = False\<rparr>\<rparr>,
            [])
   \<and> split CHR ''/'' ''/a/b'' \<noteq> split CHR ''/'' ''/a''
   \<and> length (split CHR ''/'' ''/a/b'') \<noteq> length (split CHR ''/'' ''/a'')"
  by (simp add: run_defs top_router_def)

text \<open>
  C2, as the code has it. For a pattern other than \<^verbatim>\<open>*\<close> none of whose segments starts
  with a colon, and for every location, the match succeeds if and only if the first
  segments of the location, as many as the pattern has, are the segments of the pattern,
  position for position; the location may go on after them. When it succeeds the params
  are empty and the matched path is the pattern; when it does not, routing throws.
\<close>

theorem literal_pattern_matches_prefix:
  assumes "pattern \<noteq> ''*''"
      and "\<forall>part \<in> set (split CHR ''/'' pattern). fst_str part \<noteq> Some '':''"
  shows "(take (length (split CHR ''/'' pattern)) (split CHR ''/'' location) = split CHR ''/'' pattern \<longrightarrow>
            dispatch (parsedRoutes [(pattern, h)]) router location
              = Inr (h,
                     \<lparr>prefixPath = prefixPath router @ pattern,
                      path = Behavior_of (''/'' @ join ''/''
                               (drop (length (split CHR ''/'' pattern)) (split CHR ''/'' location))),
                      config = config router\<rparr>,
                     []))
         \<and> (take (length (split CHR ''/'' pattern)) (split CHR ''/'' location) \<noteq> split CHR ''/'' pattern \<longrightarrow>
            dispatch (parsedRoutes [(pattern, h)]) router location = Inl TypeError)"
proof -
  let ?pp = "split CHR ''/'' pattern" and ?lp = "split CHR ''/'' location"
  have c: "compatible ?lp (parsePathPattern pattern h) \<longleftrightarrow> take (length ?pp) ?lp = ?pp"
    by (simp add: compatible_iff literals_hold_literal_pattern [OF assms])
  have ps: "pattern_params (parsePathPattern pattern h) = []"
    using assms by (simp add: compile_params record_no_params)
  have a: "take (length ?pp) ?lp = ?pp \<longrightarrow>
            dispatch (parsedRoutes [(pattern, h)]) router location
              = Inr (h,
                     \<lparr>prefixPath = prefixPath router @ pattern,
                      path = Behavior_of (''/'' @ join ''/'' (drop (length ?pp) ?lp)),
                      config = config router\<rparr>,
                     [])"
  proof
    assume t: "take (length ?pp) ?lp = ?pp"
    with c have "List.find (compatible ?lp) (parsedRoutes [(pattern, h)])
                   = Some (parsePathPattern pattern h)"
      by (simp add: parsedRoutes_def)
    from dispatch_Some [OF this, of router]
    show "dispatch (parsedRoutes [(pattern, h)]) router location
              = Inr (h,
                     \<lparr>prefixPath = prefixPath router @ pattern,
                      path = Behavior_of (''/'' @ join ''/'' (drop (length ?pp) ?lp)),
                      config = config router\<rparr>,
                     [])"
      by (simp add: ps obj_keys_def t join_split)
  qed
  have b: "take (length ?pp) ?lp \<noteq> ?pp \<longrightarrow>
            dispatch (parsedRoutes [(pattern, h)]) router location = Inl TypeError"
  proof
    assume "take (length ?pp) ?lp \<noteq> ?pp"
    with c have "List.find (compatible ?lp) (parsedRoutes [(pattern, h)]) = None"
      by (simp add: parsedRoutes_def)
    then show "dispatch (parsedRoutes [(pattern, h)]) router location = Inl TypeError"
      by (rule dispatch_None)
  qed
  from a b show ?thesis by blast
qed

theorem literal_pattern_matches_prefix_witness:
  "dispatch (parsedRoutes [(''/about'', unit_handler)]) (top_router ''/about/team'') ''/about/team''
     = Inr (unit_handler,
            \<lparr>prefixPath = prefixPath (top_router ''/about/team'') @ ''/about'',
             path = Behavior_of (''/'' @ join ''/''
                      (drop (length (split CHR ''/'' ''/about'')) (split CHR ''/'' ''/about/team''))),
             config = config (top_router ''/about/team'')\<rparr>,
            [])
   \<and> dispatch (parsedRoutes [(''/about'', unit_handler)]) (top_router ''/help'') ''/help''
       = Inl TypeError"
proof -
  have p: "''/about'' \<noteq> ''*''" by simp
  have l: "\<forall>part \<in> set (split CHR ''/'' ''/about''). fst_str part \<noteq> Some '':''"
    by (simp add: fst_str_def)
  have y: "take (length (split CHR ''/'' ''/about'')) (split CHR ''/'' ''/about/team'')
             = split CHR ''/'' ''/about''"
    by simp
  have n: "take (length (split CHR ''/'' ''/about'')) (split CHR ''/'' ''/help'')
             \<noteq> split CHR ''/'' ''/about''"
    by simp
  show ?thesis
    using literal_pattern_matches_prefix [OF p l, of "''/about/team''" unit_handler "top_router ''/about/team''"]
          literal_pattern_matches_prefix [OF p l, of "''/help''" unit_handler "top_router ''/help''"]
          y n
    by blast
qed

section \<open>Parameters bound by a match\<close>

lemma dispatch_last_occurrence:
  assumes found: "List.find (compatible (split CHR ''/'' location)) parsed
                    = Some (parsePathPattern pattern h)"
      and i: "i < length (split CHR ''/'' pattern)"
      and seg: "split CHR ''/'' pattern ! i = CHR '':'' # name"
      and proto: "name \<noteq> ''__proto__''"
      and last: "\<forall>k. i < k \<and> k < length (split CHR ''/'' pattern)
                   \<longrightarrow> split CHR ''/'' pattern ! k \<noteq> CHR '':'' # name"
  shows "\<exists>newRouter params. dispatch parsed router location = Inr (h, newRouter, params)
           \<and> map_of params name = Some (idx (split CHR ''/'' location) i)"
proof -
  have star: "pattern \<noteq> ''*''"
    using i seg by auto
  have rc: "map_of (pattern_params (parsePathPattern pattern h)) name = Some i"
    using star by (simp add: compile_params record_last [OF _ i seg proto last])
  have "map_of (bind_params (split CHR ''/'' location) (pattern_params (parsePathPattern pattern h))
                  (obj_keys (pattern_params (parsePathPattern pattern h))) []) name
          = Some (idx (split CHR ''/'' location) i)"
    by (simp add: bind_params_record [OF compile_params_proto] rc)
  then show ?thesis
    by (simp add: dispatch_Some [OF found])
qed

text \<open>
  C1 says that a parameter segment at index \<open>i\<close> binds its name to the location segment
  at index \<open>i\<close>. In the pattern \<^verbatim>\<open>/:x/:x\<close> the segment at index 1 is \<^verbatim>\<open>:x\<close>, and at
  the location \<^verbatim>\<open>/a/b\<close> the name \<^verbatim>\<open>x\<close> is bound to \<^verbatim>\<open>b\<close>, the segment at index 2,
  not to \<^verbatim>\<open>a\<close>: the later segment of the same name overwrites the index.
\<close>

theorem repeated_parameter_binds_later_segment:
  "dispatch (parsedRoutes [(''/:x/:x'', unit_handler)]) (top_router ''/a/b'') ''/a/b''
     = Inr (unit_handler,
            \<lparr>prefixPath = ''/a/b'', path = Behavior_of ''/'', config = \<lparr>useHash = False\<rparr>\<rparr>,
            [(''x'', Str ''b'')])
   \<and> split CHR ''/'' ''/:x/:x'' ! 1 = '':x''
   \<and> idx (split CHR ''/'' ''/a/b'') 1 = Str ''a''"
  by (simp add: run_defs top_router_def)

text \<open>
  C1, as the code has it. For every route table and location, if the first compatible
  pattern has the segment \<^verbatim>\<open>:name\<close> at index \<open>i\<close> and at no later index, for a name
  other than \<^verbatim>\<open>__proto__\<close>, then the match succeeds and binds \<^verbatim>\<open>params[name]\<close> to the
  location segment at index \<open>i\<close> (\<^verbatim>\<open>undefined\<close> if the location has none). In particular
  the pattern \<^verbatim>\<open>/users/:id\<close> at the location \<^verbatim>\<open>/users/42\<close> succeeds with the params
  \<^verbatim>\<open>{id: "42"}\<close> and the rest \<^verbatim>\<open>/\<close>.
\<close>

theorem first_compatible_pattern_binds_parameter:
  assumes "List.find (compatible (split CHR ''/'' location)) (parsedRoutes routes)
             = Some (parsePathPattern pattern h)"
      and "i < length (split CHR ''/'' pattern)"
      and "split CHR ''/'' pattern ! i = CHR '':'' # name"
      and "name \<noteq> ''__proto__''"
      and "\<forall>k. i < k \<and> k < length (split CHR ''/'' pattern)
             \<longrightarrow> split CHR ''/'' pattern ! k \<noteq> CHR '':'' # name"
  shows "(\<exists>newRouter params.
            dispatch (parsedRoutes routes) router location = Inr (h, newRouter, params)
            \<and> map_of params name = Some (idx (split CHR ''/'' location) i))
         \<and> dispatch (parsedRoutes [(''/users/:id'', H)]) router ''/users/42''
             = Inr (H,
                    \<lparr>prefixPath = prefixPath router @ ''/users/42'',
                     path = Behavior_of ''/'', config = config router\<rparr>,
                    [(''id'', Str ''42'')])"
proof -
  have "dispatch (parsedRoutes [(''/users/:id'', H)]) router ''/users/42''
             = Inr (H,
                    \<lparr>prefixPath = prefixPath router @ ''/users/42'',
                     path = Behavior_of ''/'', config = config router\<rparr>,
                    [(''id'', Str ''42'')])"
    by (simp add: run_defs)
  with dispatch_last_occurrence [OF assms, of router] show ?thesis by blast
qed

theorem first_compatible_pattern_binds_parameter_witness:
  "\<exists>newRouter params.
      dispatch (parsedRoutes [(''/about'', unit_handler), (''/users/:id/:tab'', unit_handler)])
        (top_router ''/users/42/posts'') ''/users/42/posts''
        = Inr (unit_handler, newRouter, params)
      \<and> map_of params ''id'' = Some (Str ''42'')"
proof -
  have f: "List.find (compatible (split CHR ''/'' ''/users/42/posts''))
             (parsedRoutes [(''/about'', unit_handler), (''/users/:id/:tab'', unit_handler)])
           = Some (parsePathPattern ''/users/:id/:tab'' unit_handler)"
    by (simp add: parsedRoutes_def compatible_iff literals_hold_def idx_def Let_def fst_str_def
                  atLeast0_lessThan_Suc)
  have i: "2 < length (split CHR ''/'' ''/users/:id/:tab'')" by simp
  have seg: "split CHR ''/'' ''/users/:id/:tab'' ! 2 = CHR '':'' # ''id''" by simp
  have proto: "''id'' \<noteq> ''__proto__''" by simp
  have last: "\<forall>k. 2 < k \<and> k < length (split CHR ''/'' ''/users/:id/:tab'')
                \<longrightarrow> split CHR ''/'' ''/users/:id/:tab'' ! k \<noteq> CHR '':'' # ''id''"
    by (auto simp: less_Suc_eq)
  have v: "idx (split CHR ''/'' ''/users/42/posts'') 2 = Str ''42''"
    by (simp add: idx_def)
  show ?thesis
    using first_compatible_pattern_binds_parameter
            [OF f i seg proto last, of "top_router ''/users/42/posts''"]
    unfolding v by blast
qed

section \<open>Parameters read without matching\<close>

lemmas read_defs =
  readParams_def readParams_record.simps Let_def obj_set_def obj_keys_def idx_of_def idx_def
  fst_str_def

lemma readParams_last_occurrence:
  assumes i: "i < length (split CHR ''/'' pattern)"
      and seg: "split CHR ''/'' pattern ! i = CHR '':'' # name"
      and proto: "name \<noteq> ''__proto__''"
      and last: "\<forall>k. i < k \<and> k < length (split CHR ''/'' pattern)
                   \<longrightarrow> split CHR ''/'' pattern ! k \<noteq> CHR '':'' # name"
  shows "map_of (readParams pattern location) name = Some (idx (split CHR ''/'' location) i)"
proof -
  have rc: "map_of (readParams_record 0 (split CHR ''/'' pattern) []) name = Some i"
    by (simp add: record_last [OF _ i seg proto last])
  have pr: "map_of (readParams_record 0 (split CHR ''/'' pattern) []) ''__proto__'' = None"
    by (simp add: record_proto)
  show ?thesis
    by (simp add: readParams_def Let_def bind_params_record [OF pr] rc)
qed

text \<open>
  C10 says that \<^verbatim>\<open>readParams\<close> binds each name at pattern index \<open>i\<close> to the location
  segment at index \<open>i\<close>. For the pattern \<^verbatim>\<open>/:x/:x\<close> and the location \<^verbatim>\<open>/a/b\<close> the
  segment at index 1 is \<^verbatim>\<open>:x\<close>, and \<^verbatim>\<open>x\<close> is bound to \<^verbatim>\<open>b\<close>, the segment at index 2.
\<close>

theorem readParams_repeated_parameter:
  "readParams ''/:x/:x'' ''/a/b'' = [(''x'', Str ''b'')]
   \<and> split CHR ''/'' ''/:x/:x'' ! 1 = '':x''
   \<and> idx (split CHR ''/'' ''/a/b'') 1 = Str ''a''"
  by (simp add: read_defs)

text \<open>
  C10, as the code has it. For every pattern and location, \<^verbatim>\<open>readParams\<close> (and
  \<^verbatim>\<open>parsePathParams\<close>, which applies it to the location at every time) binds a name
  other than \<^verbatim>\<open>__proto__\<close>, whose last segment \<^verbatim>\<open>:name\<close> in the pattern is at index
  \<open>i\<close>, to the location segment at index \<open>i\<close>, whatever the literal segments of the
  location and of the pattern are: \<^verbatim>\<open>/users/:id\<close> reads \<^verbatim>\<open>id\<close> off \<^verbatim>\<open>/posts/7\<close>. When
  the location has no segment at index \<open>i\<close> the name is bound to \<^verbatim>\<open>undefined\<close>.
\<close>

theorem readParams_binds_without_checking:
  assumes "i < length (split CHR ''/'' pattern)"
      and "split CHR ''/'' pattern ! i = CHR '':'' # name"
      and "name \<noteq> ''__proto__''"
      and "\<forall>k. i < k \<and> k < length (split CHR ''/'' pattern)
             \<longrightarrow> split CHR ''/'' pattern ! k \<noteq> CHR '':'' # name"
  shows "map_of (readParams pattern location) name = Some (idx (split CHR ''/'' location) i)
         \<and> (length (split CHR ''/'' location) \<le> i
              \<longrightarrow> map_of (readParams pattern location) name = Some Undefined)
         \<and> parsePathParams pattern locationBehavior t = readParams pattern (locationBehavior t)
         \<and> readParams ''/users/:id'' ''/posts/7'' = [(''id'', Str ''7'')]"
proof -
  note a = readParams_last_occurrence [OF assms, of location]
  then have b: "length (split CHR ''/'' location) \<le> i
              \<longrightarrow> map_of (readParams pattern location) name = Some Undefined"
    by (simp add: idx_def)
  have c: "parsePathParams pattern locationBehavior t = readParams pattern (locationBehavior t)"
    by (simp add: parsePathParams_def Behavior_map_def)
  have d: "readParams ''/users/:id'' ''/posts/7'' = [(''id'', Str ''7'')]"
    by (simp add: read_defs)
  from a b c d show ?thesis by blast
qed

theorem readParams_binds_without_checking_witness:
  "map_of (readParams ''/users/:id/:tab'' ''/posts/7'') ''id'' = Some (Str ''7'')
   \<and> map_of (readParams ''/users/:id/:tab'' ''/posts/7'') ''tab'' = Some Undefined"
proof -
  have i: "2 < length (split CHR ''/'' ''/users/:id/:tab'')" by simp
  have seg: "split CHR ''/'' ''/users/:id/:tab'' ! 2 = CHR '':'' # ''id''" by simp
  have proto: "''id'' \<noteq> ''__proto__''" by simp
  have last: "\<forall>k. 2 < k \<and> k < length (split CHR ''/'' ''/users/:id/:tab'')
                \<longrightarrow> split CHR ''/'' ''/users/:id/:tab'' ! k \<noteq> CHR '':'' # ''id''"
    by (auto simp: less_Suc_eq)
  have i': "3 < length (split CHR ''/'' ''/users/:id/:tab'')" by simp
  have seg': "split CHR ''/'' ''/users/:id/:tab'' ! 3 = CHR '':'' # ''tab''" by simp
  have proto': "''tab'' \<noteq> ''__proto__''" by simp
  have last': "\<forall>k. 3 < k \<and> k < length (split CHR ''/'' ''/users/:id/:tab'')
                \<longrightarrow> split CHR ''/'' ''/users/:id/:tab'' ! k \<noteq> CHR '':'' # ''tab''"
    by (auto simp: less_Suc_eq)
  have v: "idx (split CHR ''/'' ''/posts/7'') 2 = Str ''7''"
    by (simp add: idx_def)
  have short: "length (split CHR ''/'' ''/posts/7'') \<le> 3" by simp
  show ?thesis
    using readParams_binds_without_checking [OF i seg proto last, of "''/posts/7''"]
          readParams_binds_without_checking [OF i' seg' proto' last', of "''/posts/7''"]
          short
    unfolding v by blast
qed

end
